theory Spec2Isabelle
  imports Main
begin

section \<open>Python values and exceptions\<close>

text \<open>
  The exceptions of class \<open>Exception\<close> that the operations of
  \<open>syllabus_processor.py\<close> can raise. \<open>Other_Exception\<close> stands for
  whatever an external library raises (a timeout, a connection error, a failed lookup).
\<close>

datatype py_error =
    IndexError
  | KeyError
  | TypeError
  | AttributeError
  | Other_Exception string

text \<open>
  What \<open>response.json()\<close> yields: the Python image of a JSON document. An object is a
  \<open>dict\<close>, kept as an association list whose keys are distinct, so that the first
  match of \<open>map_of\<close> is the dictionary lookup. The payload of a number plays no role in
  any operation below.
\<close>

datatype json =
    JNull
  | JBool bool
  | JNum int
  | JStr string
  | JArr "json list"
  | JObj "(string \<times> json) list"

text \<open>\<open>d.get(key, default)\<close>: only a \<open>dict\<close> has the method.\<close>

fun py_get :: "json \<Rightarrow> string \<Rightarrow> json \<Rightarrow> py_error + json" where
  "py_get (JObj kvs) key dflt = Inr (case map_of kvs key of None \<Rightarrow> dflt | Some v \<Rightarrow> v)"
| "py_get _ key dflt = Inl AttributeError"

text \<open>
  \<open>x[0]\<close>: the first element of a list, the first character of a string (as a string),
  \<open>IndexError\<close> when either is empty; a \<open>dict\<close> parsed from JSON has string keys only,
  so the key \<open>0\<close> is missing; \<open>None\<close>, booleans and numbers are not subscriptable.
\<close>

fun py_index0 :: "json \<Rightarrow> py_error + json" where
  "py_index0 (JArr []) = Inl IndexError"
| "py_index0 (JArr (x # xs)) = Inr x"
| "py_index0 (JStr []) = Inl IndexError"
| "py_index0 (JStr (c # cs)) = Inr (JStr [c])"
| "py_index0 (JObj kvs) = Inl KeyError"
| "py_index0 _ = Inl TypeError"

text \<open>Sequencing of operations that may raise: the first exception ends the chain.\<close>

definition bind :: "py_error + 'a \<Rightarrow> ('a \<Rightarrow> py_error + 'b) \<Rightarrow> py_error + 'b" where
  "bind m f = (case m of Inl e \<Rightarrow> Inl e | Inr v \<Rightarrow> f v)"

section \<open>Python string operations\<close>

text \<open>
  A \<open>str\<close> is modelled as a list of characters with code points below 256.
  \<open>str.isspace\<close> on that range: U+0009 to U+000D, U+001C to U+0020, U+0085, U+00A0.
\<close>

definition py_isspace :: "char \<Rightarrow> bool" where
  "py_isspace c =
     (let n = (of_char c :: nat)
      in (9 \<le> n \<and> n \<le> 13) \<or> (28 \<le> n \<and> n \<le> 32) \<or> n = 133 \<or> n = 160)"

text \<open>\<open>s.strip()\<close>: leading and trailing whitespace removed.\<close>

definition strip :: "string \<Rightarrow> string" where
  "strip s = rev (dropWhile py_isspace (rev (dropWhile py_isspace s)))"

text \<open>\<open>s.startswith(p)\<close>.\<close>

definition startswith :: "string \<Rightarrow> string \<Rightarrow> bool" where
  "startswith s p = (take (length p) s = p)"

text \<open>\<open>s.split(sep)\<close> for a one-character separator: never an empty list.\<close>

fun split :: "char \<Rightarrow> string \<Rightarrow> string list" where
  "split sep [] = [[]]"
| "split sep (c # cs) =
     (if c = sep then [] # split sep cs
      else (case split sep cs of
              [] \<Rightarrow> [[c]]
            | w # ws \<Rightarrow> (c # w) # ws))"

text \<open>
  \<open>s.replace(old, new)\<close>: every occurrence of \<open>old\<close>, found from the left without
  overlap, is replaced; an empty \<open>old\<close> matches before each character and at the end.
\<close>

function replace :: "string \<Rightarrow> string \<Rightarrow> string \<Rightarrow> string" where
  "replace old new s =
     (if old = [] then new @ concat (map (\<lambda>c. c # new) s)
      else if s = [] then []
      else if take (length old) s = old then new @ replace old new (drop (length old) s)
      else hd s # replace old new (tl s))"
  by pat_completeness auto
termination
  by (relation "measure (\<lambda>(old, new, s). length s)") (auto simp: neq_Nil_conv)

declare replace.simps [simp del]

definition newline :: char where
  "newline = CHR 0x0A"

section \<open>The generation backend and the retrying call client\<close>

text \<open>
  One \<open>session.post\<close>: either the call raises (timeout after 30 seconds, transport
  failure), or a response arrives with a status and a body; \<open>response.json()\<close> on the
  body gives a value or raises (\<open>None\<close>). The backend is an oracle from the prompt and
  the attempt number to that outcome.
\<close>

datatype http_outcome =
    Transport_Error py_error
  | Http_Response nat "json option"

type_synonym backend = "string \<Rightarrow> nat \<Rightarrow> http_outcome"

text \<open>The effects of a call that other tasks or the clock can observe.\<close>

datatype event =
    Post string
  | Sleep nat
  | Search string

definition max_retries :: nat where
  "max_retries = 3"

definition base_delay :: nat where
  "base_delay = 1"

text \<open>
  Line 54:
  \<open>data.get('candidates', [{}])[0].get('content', {}).get('parts', [{}])[0].get('text', '')\<close>.
\<close>

definition extract_text :: "json \<Rightarrow> py_error + json" where
  "extract_text data =
     bind (py_get data ''candidates'' (JArr [JObj []])) (\<lambda>candidates.
     bind (py_index0 candidates) (\<lambda>candidate.
     bind (py_get candidate ''content'' (JObj [])) (\<lambda>content.
     bind (py_get content ''parts'' (JArr [JObj []])) (\<lambda>parts.
     bind (py_index0 parts) (\<lambda>part.
     py_get part ''text'' (JStr []))))))"

text \<open>
  The body of the \<open>try\<close> of one attempt ends in one of three ways: the 429 branch
  (sleep, \<open>continue\<close>), a \<open>return\<close>, or an exception for the handler.
\<close>

datatype attempt_result =
    Rate_Limited
  | Returned json
  | Raised py_error

definition attempt_body :: "http_outcome \<Rightarrow> attempt_result" where
  "attempt_body outcome =
     (case outcome of
        Transport_Error e \<Rightarrow> Raised e
      | Http_Response status body \<Rightarrow>
          if status = 429 then Rate_Limited
          else (case body of
                  None \<Rightarrow> Raised (Other_Exception ''json'')
                | Some data \<Rightarrow>
                    (case extract_text data of
                       Inl e \<Rightarrow> Raised e
                     | Inr text \<Rightarrow> Returned text)))"

definition emit :: "event list \<Rightarrow> 'a \<times> event list \<Rightarrow> 'a \<times> event list" where
  "emit es r = (fst r, es @ snd r)"

text \<open>
  The loop \<open>for attempt in range(max_retries)\<close> over the attempt numbers still to run,
  with the value returned and the events in the order they happen. The handler sleeps
  only when another attempt follows; the 429 branch sleeps always. Logging is not
  modelled.
\<close>

fun query_gemini_loop :: "backend \<Rightarrow> string \<Rightarrow> nat list \<Rightarrow> json \<times> event list" where
  "query_gemini_loop session prompt [] = (JStr [], [])"
| "query_gemini_loop session prompt (attempt # rest) =
     (case attempt_body (session prompt attempt) of
        Rate_Limited \<Rightarrow>
          emit [Post prompt, Sleep (base_delay * 2 ^ attempt)]
            (query_gemini_loop session prompt rest)
      | Returned text \<Rightarrow> (text, [Post prompt])
      | Raised e \<Rightarrow>
          emit (if attempt < max_retries - 1
                then [Post prompt, Sleep (base_delay * 2 ^ attempt)]
                else [Post prompt])
            (query_gemini_loop session prompt rest))"

definition query_gemini :: "backend \<Rightarrow> string \<Rightarrow> json \<times> event list" where
  "query_gemini session prompt = query_gemini_loop session prompt [0..<max_retries]"

text \<open>The number of requests sent and the seconds slept, read off the events.\<close>

fun attempts :: "event list \<Rightarrow> nat" where
  "attempts [] = 0"
| "attempts (Post p # es) = Suc (attempts es)"
| "attempts (e # es) = attempts es"

fun slept :: "event list \<Rightarrow> nat" where
  "slept [] = 0"
| "slept (Sleep d # es) = d + slept es"
| "slept (e # es) = slept es"

section \<open>The topic enricher\<close>

record video_content =
  url :: string
  title :: string
  duration :: string
  views :: string

record topic_content =
  topic :: string
  description :: string
  videos :: "video_content list"

definition apostrophe :: char where
  "apostrophe = CHR 0x27"

text \<open>The f-string of lines 65 to 73, with its line breaks and indentation.\<close>

definition description_prompt :: "string \<Rightarrow> string" where
  "description_prompt t =
     ''Provide a comprehensive technical description of '' @ [apostrophe] @ t @ [apostrophe] @
       '' in 5-7 lines.'' @ [newline] @
     ''        Focus on:'' @ [newline] @
     ''        - Key concepts and fundamentals'' @ [newline] @
     ''        - Important applications and use cases'' @ [newline] @
     ''        - Technical challenges and considerations'' @ [newline] @
     ''        - Best practices and common patterns'' @ [newline] @
     ''        - Real-world relevance'' @ [newline] @
     [newline] @
     ''        Make it educational and suitable for a technical course syllabus.''"

definition fallback_description :: "string \<Rightarrow> string" where
  "fallback_description t = ''Description generation failed for '' @ t"

text \<open>
  \<open>get_topic_description\<close>. The value that \<open>query_gemini\<close> returns is whatever sits in
  the \<open>text\<close> field, so the three uses of \<open>description\<close> decide what happens:
  \<open>description[:100]\<close> raises \<open>TypeError\<close> on \<open>None\<close>, a boolean, a number and a
  \<open>dict\<close>; \<open>not description\<close> is true for the empty string and the empty list;
  \<open>description.strip()\<close> raises \<open>AttributeError\<close> on a list. The test for emptiness
  comes before the \<open>strip\<close>.
\<close>

definition get_topic_description :: "backend \<Rightarrow> string \<Rightarrow> (py_error + string) \<times> event list" where
  "get_topic_description session t =
     (case query_gemini session (description_prompt t) of
        (JStr d, tr) \<Rightarrow>
          (Inr (strip (if d = [] then fallback_description t else d)), tr)
      | (JArr xs, tr) \<Rightarrow>
          (if xs = [] then Inr (strip (fallback_description t)) else Inl AttributeError, tr)
      | (_, tr) \<Rightarrow> (Inl TypeError, tr))"

text \<open>
  The video lookup \<open>YoutubeSearch(query, max_results).to_dict()\<close> is an oracle: it raises,
  or gives a list of records, each a \<open>dict\<close> from field names to strings.
\<close>

type_synonym raw_result = "(string \<times> string) list"

type_synonym youtube = "string \<Rightarrow> nat \<Rightarrow> py_error + raw_result list"

text \<open>\<open>r[key]\<close> raises \<open>KeyError\<close> on a missing key; \<open>r.get(key, default)\<close> does not.\<close>

definition getitem :: "raw_result \<Rightarrow> string \<Rightarrow> py_error + string" where
  "getitem r key = (case map_of r key of None \<Rightarrow> Inl KeyError | Some v \<Rightarrow> Inr v)"

definition make_video :: "raw_result \<Rightarrow> py_error + video_content" where
  "make_video r =
     bind (getitem r ''url_suffix'') (\<lambda>url_suffix.
     bind (getitem r ''title'') (\<lambda>ti.
     bind (getitem r ''duration'') (\<lambda>du.
     Inr \<lparr>url = ''https://youtube.com'' @ url_suffix,
          title = ti,
          duration = du,
          views = (case map_of r ''views'' of None \<Rightarrow> ''N/A'' | Some v \<Rightarrow> v)\<rparr>)))"

text \<open>The list comprehension: the first record that raises ends it.\<close>

fun make_videos :: "raw_result list \<Rightarrow> py_error + video_content list" where
  "make_videos [] = Inr []"
| "make_videos (r # rs) =
     bind (make_video r) (\<lambda>v. bind (make_videos rs) (\<lambda>vs. Inr (v # vs)))"

definition get_videos :: "youtube \<Rightarrow> string \<Rightarrow> video_content list \<times> event list" where
  "get_videos yt t =
     (case bind (yt (''tutorial '' @ t) 5) make_videos of
        Inl e \<Rightarrow> []
      | Inr vs \<Rightarrow> vs,
      [Search (''tutorial '' @ t)])"

text \<open>
  \<open>process_topic\<close>: the description is awaited to its end, then the video lookup is
  handed to the executor and awaited. An exception of the description path leaves the
  coroutine before the lookup is submitted.
\<close>

definition process_topic ::
  "backend \<Rightarrow> youtube \<Rightarrow> string \<Rightarrow> (py_error + topic_content) \<times> event list" where
  "process_topic session yt t =
     (case get_topic_description session t of
        (Inl e, tr) \<Rightarrow> (Inl e, tr)
      | (Inr d, tr) \<Rightarrow>
          (case get_videos yt t of
             (vs, tr') \<Rightarrow> (Inr \<lparr>topic = t, description = d, videos = vs\<rparr>, tr @ tr')))"

section \<open>Topic extraction and fan-out\<close>

text \<open>The string literal of lines 114 to 125.\<close>

definition topic_prompt :: string where
  "topic_prompt =
     ''Analyze this text and extract ALL technical topics being taught.'' @ [newline] @
     ''                        Ignore headings, sections, or administrative text.'' @ [newline] @
     ''                        Each topic should be a specific concept or skill.'' @ [newline] @
     ''                        List each topic on a new line starting with '' @
        [apostrophe] @ ''Topic:'' @ [apostrophe] @ ''.'' @ [newline] @
     ''                        '' @ [newline] @
     ''                        Rules:'' @ [newline] @
     ''                        - Extract every possible topic, even if briefly mentioned'' @ [newline] @
     ''                        - Break down composite topics into individual components'' @ [newline] @
     ''                        - Exclude course logistics, grading policies, or administrative text'' @ [newline] @
     ''                        - Focus on actual learning content'' @ [newline] @
     ''                        - Each topic should be granular - break larger topics into specific sub-topics'' @ [newline] @
     ''                        ''"

text \<open>Lines 131 to 136: the loop over the lines of the answer.\<close>

fun extract_lines :: "string list \<Rightarrow> string list" where
  "extract_lines [] = []"
| "extract_lines (line # lines) =
     (if startswith line ''Topic:''
      then (let t = strip (replace ''Topic:'' [] line)
            in if t \<noteq> [] then t # extract_lines lines else extract_lines lines)
      else extract_lines lines)"

definition extract_topics :: "string \<Rightarrow> string list" where
  "extract_topics topics_text = extract_lines (split newline topics_text)"

text \<open>
  \<open>asyncio.gather(*tasks)\<close>, as the library documents it: the tasks finish in some
  order; the first one to finish with an exception makes \<open>gather\<close> raise it; otherwise
  each result goes to the position of its task, and the list of results is returned
  once every position is filled. \<open>None\<close> is a \<open>gather\<close> that is still waiting.
\<close>

fun gather_loop :: "(py_error + 'a) list \<Rightarrow> nat list \<Rightarrow> 'a option list \<Rightarrow> py_error + 'a option list" where
  "gather_loop outcomes [] slots = Inr slots"
| "gather_loop outcomes (i # order) slots =
     (if i < length outcomes
      then (case outcomes ! i of
              Inl e \<Rightarrow> Inl e
            | Inr v \<Rightarrow> gather_loop outcomes order (slots[i := Some v]))
      else gather_loop outcomes order slots)"

definition gather :: "(py_error + 'a) list \<Rightarrow> nat list \<Rightarrow> (py_error + 'a list) option" where
  "gather outcomes order =
     (case gather_loop outcomes order (replicate (length outcomes) None) of
        Inl e \<Rightarrow> Some (Inl e)
      | Inr slots \<Rightarrow> map_option Inr (those slots))"

text \<open>A completion order of \<open>n\<close> tasks: each task finishes exactly once.\<close>

definition completion_order :: "nat \<Rightarrow> nat list \<Rightarrow> bool" where
  "completion_order n order = (sort order = [0..<n])"

text \<open>
  Lines 139 to 143: one \<open>process_topic\<close> per topic, gathered. Call \<open>i + 1\<close> of the
  session is the description call of topic \<open>i\<close>; call \<open>0\<close> is the extraction call.
\<close>

definition process_topics ::
  "(nat \<Rightarrow> backend) \<Rightarrow> youtube \<Rightarrow> nat list \<Rightarrow> string list \<Rightarrow> (py_error + topic_content list) option" where
  "process_topics net yt order topics =
     gather (map (\<lambda>(i, t). fst (process_topic (net (Suc i)) yt t)) (enumerate 0 topics)) order"

text \<open>The f-string of line 128.\<close>

definition extraction_prompt :: "string \<Rightarrow> string" where
  "extraction_prompt text = topic_prompt @ [newline, newline] @ ''Text to analyze:'' @ [newline] @ text"

text \<open>
  \<open>process_all\<close>, from the text of the document on. \<open>topics_text.split\<close> raises
  \<open>AttributeError\<close> when the extraction call returned something that is not a string.
\<close>

definition process_all ::
  "(nat \<Rightarrow> backend) \<Rightarrow> youtube \<Rightarrow> nat list \<Rightarrow> string \<Rightarrow> (py_error + topic_content list) option" where
  "process_all net yt order text =
     (case fst (query_gemini (net 0) (extraction_prompt text)) of
        JStr topics_text \<Rightarrow> process_topics net yt order (extract_topics topics_text)
      | _ \<Rightarrow> Some (Inl AttributeError))"

text \<open>
  The generation backend documents the \<open>text\<close> field as a string. A backend is
  string-typed when every value an attempt returns is one.
\<close>

definition str_typed :: "backend \<Rightarrow> bool" where
  "str_typed session =
     (\<forall>prompt attempt v. attempt_body (session prompt attempt) = Returned v \<longrightarrow> (\<exists>s. v = JStr s))"

text \<open>
  The transient conditions of a request: the call raises (timeout, transport failure),
  the status is 429, or the body does not parse.
\<close>

definition is_transient :: "http_outcome \<Rightarrow> bool" where
  "is_transient outcome =
     (case outcome of
        Transport_Error e \<Rightarrow> True
      | Http_Response status body \<Rightarrow> status = 429 \<or> body = None)"

section \<open>Concrete backends and inputs\<close>

definition always_429 :: backend where
  "always_429 = (\<lambda>prompt attempt. Http_Response 429 None)"

text \<open>The well-formed answer carrying a given text.\<close>

definition answer :: "string \<Rightarrow> json" where
  "answer s =
     JObj [(''candidates'', JArr [JObj [(''content'', JObj [(''parts'', JArr [JObj [(''text'', JStr s)]])])]])]"

definition always_answer :: "string \<Rightarrow> backend" where
  "always_answer s = (\<lambda>prompt attempt. Http_Response 200 (Some (answer s)))"

text \<open>Every answer has status 200 and the given body.\<close>

definition always_json :: "json \<Rightarrow> backend" where
  "always_json data = (\<lambda>prompt attempt. Http_Response 200 (Some data))"

text \<open>The first answer has an empty list of candidates, the later ones are well formed.\<close>

definition empty_then_answer :: backend where
  "empty_then_answer =
     (\<lambda>prompt attempt.
        if attempt = 0 then Http_Response 200 (Some (JObj [(''candidates'', JArr [])]))
        else Http_Response 200 (Some (answer ''hello'')))"

definition youtube_down :: youtube where
  "youtube_down = (\<lambda>query max_results. Inl (Other_Exception ''lookup''))"

text \<open>Two records from the video lookup; the second has no duration.\<close>

definition sample_results :: "raw_result list" where
  "sample_results =
     [[(''url_suffix'', ''/watch?v=1''), (''title'', ''Intro''), (''duration'', ''9:59''), (''views'', ''5 views'')],
      [(''url_suffix'', ''/watch?v=2''), (''title'', ''Part 2'')]]"

definition sample_youtube :: youtube where
  "sample_youtube = (\<lambda>query max_results. Inr sample_results)"

definition two_topics :: string where
  "two_topics = ''Topic: A'' @ [newline] @ ''Topic: B''"

text \<open>The extraction call answers with two topics; every description call is rate limited.\<close>

definition failing_net :: "nat \<Rightarrow> backend" where
  "failing_net i = (if i = 0 then always_answer two_topics else always_429)"

section \<open>Properties of the retrying call client\<close>

lemma upt_max_retries: "[0..<max_retries] = [0, 1, 2]"
  by (simp add: max_retries_def upt_rec)

lemma attempts_append: "attempts (es @ fs) = attempts es + attempts fs"
  by (induction es rule: attempts.induct) simp_all

lemma attempts_loop_le: "attempts (snd (query_gemini_loop session prompt as)) \<le> length as"
proof (induction as)
  case Nil
  show ?case by simp
next
  case (Cons a as)
  then show ?case
    by (cases "attempt_body (session prompt a)") (simp_all add: emit_def)
qed

text \<open>
  C4. Every call sends at most 3 requests. Against a backend whose every answer has
  status 429 the call returns the empty string after exactly 3 requests, and the
  seconds slept are \<open>base_delay * (1 + 2 + 4)\<close> with \<open>base_delay = 1\<close>.
\<close>

theorem query_gemini_retry_bound:
  "attempts (snd (query_gemini session prompt)) \<le> 3 \<and>
   ((\<forall>attempt < 3. \<exists>body. session prompt attempt = Http_Response 429 body) \<longrightarrow>
      fst (query_gemini session prompt) = JStr [] \<and>
      attempts (snd (query_gemini session prompt)) = 3 \<and>
      slept (snd (query_gemini session prompt)) = base_delay * (1 + 2 + 4) \<and>
      base_delay = 1)"
proof (intro conjI impI)
  show "attempts (snd (query_gemini session prompt)) \<le> 3"
    using attempts_loop_le [of session prompt "[0..<max_retries]"]
    by (simp add: query_gemini_def max_retries_def)
next
  assume limited: "\<forall>attempt < 3. \<exists>body. session prompt attempt = Http_Response 429 body"
  have r: "attempt_body (session prompt a) = Rate_Limited" if "a < 3" for a
    using limited that by (auto simp: attempt_body_def)
  have r0: "attempt_body (session prompt 0) = Rate_Limited"
    and r1: "attempt_body (session prompt (Suc 0)) = Rate_Limited"
    and r2: "attempt_body (session prompt 2) = Rate_Limited"
    using r [of 0] r [of 1] r [of 2] by simp_all
  have run: "query_gemini session prompt =
      (JStr [], [Post prompt, Sleep 1, Post prompt, Sleep 2, Post prompt, Sleep 4])"
    by (simp add: query_gemini_def upt_max_retries r0 r1 r2 emit_def base_delay_def)
  show "fst (query_gemini session prompt) = JStr []"
    by (simp add: run)
  show "attempts (snd (query_gemini session prompt)) = 3"
    by (simp add: run)
  show "slept (snd (query_gemini session prompt)) = base_delay * (1 + 2 + 4)"
    by (simp add: run base_delay_def)
  show "base_delay = 1"
    by (simp add: base_delay_def)
qed

theorem query_gemini_retry_bound_witness:
  "fst (query_gemini always_429 ''p'') = JStr [] \<and>
   attempts (snd (query_gemini always_429 ''p'')) = 3 \<and>
   slept (snd (query_gemini always_429 ''p'')) = 7"
proof -
  have h: "\<forall>attempt < 3. \<exists>body. always_429 ''p'' attempt = Http_Response 429 body"
    by (simp add: always_429_def)
  show ?thesis
    using query_gemini_retry_bound [of always_429 "''p''"] h
    by (simp add: base_delay_def)
qed

section \<open>Properties of the enricher and the fan-out\<close>

lemma query_gemini_loop_typed:
  "str_typed session \<Longrightarrow> \<exists>s. fst (query_gemini_loop session prompt as) = JStr s"
proof (induction as)
  case Nil
  show ?case by simp
next
  case (Cons a as)
  show ?case
  proof (cases "attempt_body (session prompt a)")
    case Rate_Limited
    with Cons show ?thesis by (simp add: emit_def)
  next
    case (Returned v)
    with Cons.prems obtain s where "v = JStr s"
      unfolding str_typed_def by blast
    with Returned show ?thesis by simp
  next
    case (Raised e)
    with Cons show ?thesis by (simp add: emit_def)
  qed
qed

lemma query_gemini_typed:
  "str_typed session \<Longrightarrow> \<exists>s. fst (query_gemini session prompt) = JStr s"
  by (simp add: query_gemini_def query_gemini_loop_typed)

lemma get_topic_description_typed:
  assumes "str_typed session"
  shows "\<exists>d. fst (get_topic_description session t) = Inr d"
proof -
  obtain s where "fst (query_gemini session (description_prompt t)) = JStr s"
    using query_gemini_typed [OF assms] by blast
  then obtain tr where "query_gemini session (description_prompt t) = (JStr s, tr)"
    by (cases "query_gemini session (description_prompt t)") simp
  then show ?thesis
    by (simp add: get_topic_description_def)
qed

lemma process_topic_description:
  "fst (get_topic_description session t) = Inr d \<Longrightarrow>
   fst (process_topic session yt t) = Inr \<lparr>topic = t, description = d, videos = fst (get_videos yt t)\<rparr>"
  by (cases "get_topic_description session t"; cases "get_videos yt t")
     (simp add: process_topic_def)

lemma process_topic_raises:
  "fst (get_topic_description session t) = Inl e \<Longrightarrow> fst (process_topic session yt t) = Inl e"
  by (cases "get_topic_description session t") (simp add: process_topic_def)

lemma process_topic_topic:
  "fst (process_topic session yt t) = Inr r \<Longrightarrow> topic r = t"
  by (cases "get_topic_description session t"; cases "get_videos yt t";
      cases "fst (get_topic_description session t)")
     (auto simp: process_topic_def)

lemma gather_loop_filled:
  assumes "length slots = length vs"
  shows "gather_loop (map Inr vs) order slots =
         Inr (map (\<lambda>i. if i \<in> set order then Some (vs ! i) else slots ! i) [0..<length vs])"
  using assms
proof (induction order arbitrary: slots)
  case Nil
  then show ?case by (auto intro: nth_equalityI)
next
  case (Cons i order)
  show ?case
  proof (cases "i < length vs")
    case True
    have len: "length (slots[i := Some (vs ! i)]) = length vs"
      using Cons.prems by simp
    show ?thesis
      using True Cons.prems by (simp add: Cons.IH [OF len] nth_list_update)
  next
    case False
    then show ?thesis
      using Cons.prems by (auto simp add: Cons.IH [OF Cons.prems])
  qed
qed

lemma those_map_Some: "those (map Some xs) = Some xs"
  by (induction xs) simp_all

lemma completion_order_set: "completion_order n order \<Longrightarrow> set order = {0..<n}"
  unfolding completion_order_def by (metis set_sort set_upt)

lemma gather_all_returned:
  assumes "completion_order (length vs) order"
  shows "gather (map Inr vs) order = Some (Inr vs)"
proof -
  have "gather_loop (map Inr vs) order (replicate (length vs) None) =
        Inr (map (\<lambda>i. if i \<in> set order then Some (vs ! i) else replicate (length vs) None ! i) [0..<length vs])"
    by (rule gather_loop_filled) simp
  also have "map (\<lambda>i. if i \<in> set order then Some (vs ! i) else replicate (length vs) None ! i) [0..<length vs]
             = map Some vs"
    using completion_order_set [OF assms] by (auto intro: nth_equalityI)
  finally show ?thesis
    by (simp add: gather_def those_map_Some)
qed

lemma enumerate_tasks:
  "map (\<lambda>(i, t). f i t) (enumerate 0 xs) = map (\<lambda>i. f i (xs ! i)) [0..<length xs]"
  by (auto simp: enumerate_eq_zip intro!: nth_equalityI)

lemma process_topics_result:
  assumes typed: "\<forall>i < length topics. str_typed (net (Suc i))"
    and order: "completion_order (length topics) order"
  shows "\<exists>rs. process_topics net yt order topics = Some (Inr rs) \<and>
              length rs = length topics \<and>
              (\<forall>i < length topics.
                 fst (process_topic (net (Suc i)) yt (topics ! i)) = Inr (rs ! i) \<and>
                 topic (rs ! i) = topics ! i)"
proof -
  define task where "task i = fst (process_topic (net (Suc i)) yt (topics ! i))" for i
  define rs where "rs = map (\<lambda>i. projr (task i)) [0..<length topics]"
  have ok: "task i = Inr (rs ! i)" if i: "i < length topics" for i
  proof -
    have "str_typed (net (Suc i))"
      using typed i by simp
    then obtain d where "fst (get_topic_description (net (Suc i)) (topics ! i)) = Inr d"
      using get_topic_description_typed by blast
    then obtain r where r: "task i = Inr r"
      by (simp add: task_def process_topic_description)
    show ?thesis
      using i by (simp add: rs_def r)
  qed
  have "map task [0..<length topics] = map Inr rs"
  proof (rule nth_equalityI)
    show "length (map task [0..<length topics]) = length (map Inr rs)"
      by (simp add: rs_def)
  next
    fix i
    assume "i < length (map task [0..<length topics])"
    then have i: "i < length topics"
      by simp
    then have "i < length rs"
      by (simp add: rs_def)
    then show "map task [0..<length topics] ! i = map Inr rs ! i"
      using i by (simp add: ok [OF i])
  qed
  then have tasks: "map (\<lambda>(i, t). fst (process_topic (net (Suc i)) yt t)) (enumerate 0 topics) = map Inr rs"
    by (simp add: enumerate_tasks task_def [abs_def])
  have len: "length rs = length topics"
    by (simp add: rs_def)
  have "process_topics net yt order topics = Some (Inr rs)"
    unfolding process_topics_def tasks
    using order by (simp add: gather_all_returned len)
  moreover have "topic (rs ! i) = topics ! i" if "i < length topics" for i
    using ok [OF that] by (simp add: task_def process_topic_topic)
  moreover have "fst (process_topic (net (Suc i)) yt (topics ! i)) = Inr (rs ! i)" if "i < length topics" for i
    using ok [OF that] by (simp add: task_def)
  ultimately show ?thesis
    using len by blast
qed

lemma str_typed_always_429: "str_typed always_429"
  by (simp add: str_typed_def always_429_def attempt_body_def)

lemma extract_text_answer: "extract_text (answer s) = Inr (JStr s)"
  by (simp add: extract_text_def answer_def bind_def)

lemma str_typed_always_answer: "str_typed (always_answer s)"
  by (simp add: str_typed_def always_answer_def attempt_body_def extract_text_answer)

lemma query_gemini_first_returned:
  "attempt_body (session prompt 0) = Returned v \<Longrightarrow> query_gemini session prompt = (v, [Post prompt])"
  by (simp add: query_gemini_def upt_max_retries)

lemma extract_topics_two: "extract_topics two_topics = [''A'', ''B'']"
  by code_simp

section \<open>The empty string and the shape of a response\<close>

lemma is_transient_not_returned: "is_transient outcome \<Longrightarrow> attempt_body outcome \<noteq> Returned v"
  by (cases outcome) (auto simp: is_transient_def attempt_body_def)

lemma query_gemini_loop_exhausted:
  assumes "\<forall>a \<in> set as. \<forall>v. attempt_body (session prompt a) \<noteq> Returned v"
  shows "fst (query_gemini_loop session prompt as) = JStr [] \<and>
         attempts (snd (query_gemini_loop session prompt as)) = length as"
  using assms
proof (induction as)
  case Nil
  show ?case by simp
next
  case (Cons a as)
  then show ?case
    by (cases "attempt_body (session prompt a)") (simp_all add: emit_def)
qed

lemma query_gemini_loop_empty:
  assumes "fst (query_gemini_loop session prompt as) = JStr []"
  shows "((\<forall>a \<in> set as. \<forall>v. attempt_body (session prompt a) \<noteq> Returned v) \<and>
          attempts (snd (query_gemini_loop session prompt as)) = length as)
       \<or> (\<exists>k < length as. attempt_body (session prompt (as ! k)) = Returned (JStr []) \<and>
             attempts (snd (query_gemini_loop session prompt as)) = Suc k)"
  using assms
proof (induction as)
  case Nil
  show ?case by simp
next
  case (Cons a as)
  show ?case
  proof (cases "attempt_body (session prompt a)")
    case (Returned v)
    with Cons.prems have "attempt_body (session prompt ((a # as) ! 0)) = Returned (JStr [])"
        "attempts (snd (query_gemini_loop session prompt (a # as))) = Suc 0"
      by simp_all
    then show ?thesis by blast
  next
    case Rate_Limited
    with Cons.prems have "fst (query_gemini_loop session prompt as) = JStr []"
      by (simp add: emit_def)
    from Cons.IH [OF this] show ?thesis
    proof
      assume "(\<forall>a \<in> set as. \<forall>v. attempt_body (session prompt a) \<noteq> Returned v) \<and>
              attempts (snd (query_gemini_loop session prompt as)) = length as"
      with Rate_Limited show ?thesis by (simp add: emit_def)
    next
      assume "\<exists>k < length as. attempt_body (session prompt (as ! k)) = Returned (JStr []) \<and>
                attempts (snd (query_gemini_loop session prompt as)) = Suc k"
      then obtain k where k: "k < length as"
          "attempt_body (session prompt (as ! k)) = Returned (JStr [])"
          "attempts (snd (query_gemini_loop session prompt as)) = Suc k"
        by blast
      have "Suc k < length (a # as)"
          "attempt_body (session prompt ((a # as) ! Suc k)) = Returned (JStr [])"
          "attempts (snd (query_gemini_loop session prompt (a # as))) = Suc (Suc k)"
        using k Rate_Limited by (simp_all add: emit_def)
      then show ?thesis by blast
    qed
  next
    case (Raised e)
    with Cons.prems have "fst (query_gemini_loop session prompt as) = JStr []"
      by (simp add: emit_def)
    from Cons.IH [OF this] show ?thesis
    proof
      assume "(\<forall>a \<in> set as. \<forall>v. attempt_body (session prompt a) \<noteq> Returned v) \<and>
              attempts (snd (query_gemini_loop session prompt as)) = length as"
      with Raised show ?thesis by (simp add: emit_def)
    next
      assume "\<exists>k < length as. attempt_body (session prompt (as ! k)) = Returned (JStr []) \<and>
                attempts (snd (query_gemini_loop session prompt as)) = Suc k"
      then obtain k where k: "k < length as"
          "attempt_body (session prompt (as ! k)) = Returned (JStr [])"
          "attempts (snd (query_gemini_loop session prompt as)) = Suc k"
        by blast
      have "Suc k < length (a # as)"
          "attempt_body (session prompt ((a # as) ! Suc k)) = Returned (JStr [])"
          "attempts (snd (query_gemini_loop session prompt (a # as))) = Suc (Suc k)"
        using k Raised by (simp_all add: emit_def)
      then show ?thesis by blast
    qed
  qed
qed

lemma nth_upt_max_retries: "k < 3 \<Longrightarrow> [0..<max_retries] ! k = k"
  by (simp add: max_retries_def)

text \<open>
  C6, as the code has it. The client returns a value on every path. When every attempt
  meets a transient condition it returns the empty string after 3 requests. When it
  returns the empty string, either no attempt returned and all 3 requests were sent, or
  the attempt that returned read an empty text from a response that was not rate
  limited (a \<open>text\<close> field that is empty, or absent and replaced by the default).
\<close>

theorem query_gemini_empty_string:
  "((\<forall>a < 3. is_transient (session prompt a)) \<longrightarrow>
      fst (query_gemini session prompt) = JStr [] \<and>
      attempts (snd (query_gemini session prompt)) = 3)
   \<and> (fst (query_gemini session prompt) = JStr [] \<longrightarrow>
        ((\<forall>a < 3. \<forall>v. attempt_body (session prompt a) \<noteq> Returned v) \<and>
         attempts (snd (query_gemini session prompt)) = 3)
      \<or> (\<exists>a < 3. attempt_body (session prompt a) = Returned (JStr []) \<and>
            attempts (snd (query_gemini session prompt)) = Suc a))"
proof (intro conjI impI)
  assume "\<forall>a < 3. is_transient (session prompt a)"
  then have "\<forall>a \<in> set [0..<max_retries]. \<forall>v. attempt_body (session prompt a) \<noteq> Returned v"
    by (simp add: max_retries_def is_transient_not_returned)
  from query_gemini_loop_exhausted [of "[0..<max_retries]" session prompt, OF this]
  show "fst (query_gemini session prompt) = JStr []"
    and "attempts (snd (query_gemini session prompt)) = 3"
    by (simp_all add: query_gemini_def max_retries_def)
next
  assume "fst (query_gemini session prompt) = JStr []"
  then have "fst (query_gemini_loop session prompt [0..<max_retries]) = JStr []"
    by (simp add: query_gemini_def)
  from query_gemini_loop_empty [of session prompt "[0..<max_retries]", OF this]
  show "((\<forall>a < 3. \<forall>v. attempt_body (session prompt a) \<noteq> Returned v) \<and>
         attempts (snd (query_gemini session prompt)) = 3)
      \<or> (\<exists>a < 3. attempt_body (session prompt a) = Returned (JStr []) \<and>
            attempts (snd (query_gemini session prompt)) = Suc a)"
  proof
    assume "(\<forall>a \<in> set [0..<max_retries]. \<forall>v. attempt_body (session prompt a) \<noteq> Returned v) \<and>
            attempts (snd (query_gemini_loop session prompt [0..<max_retries])) = length [0..<max_retries]"
    then have "(\<forall>a < 3. \<forall>v. attempt_body (session prompt a) \<noteq> Returned v) \<and>
         attempts (snd (query_gemini session prompt)) = 3"
      by (simp add: query_gemini_def max_retries_def)
    then show ?thesis ..
  next
    assume "\<exists>k < length [0..<max_retries].
              attempt_body (session prompt ([0..<max_retries] ! k)) = Returned (JStr []) \<and>
              attempts (snd (query_gemini_loop session prompt [0..<max_retries])) = Suc k"
    then obtain k where "k < 3"
        "attempt_body (session prompt ([0..<max_retries] ! k)) = Returned (JStr [])"
        "attempts (snd (query_gemini_loop session prompt [0..<max_retries])) = Suc k"
      by (auto simp: max_retries_def)
    then have "k < 3 \<and> attempt_body (session prompt k) = Returned (JStr []) \<and>
            attempts (snd (query_gemini session prompt)) = Suc k"
      by (simp add: query_gemini_def nth_upt_max_retries)
    then show ?thesis by blast
  qed
qed

text \<open>
  C6, at a backend that is always rate limited.
\<close>

theorem query_gemini_empty_string_witness:
  "fst (query_gemini always_429 ''prompt'') = JStr [] \<and>
   attempts (snd (query_gemini always_429 ''prompt'')) = 3"
proof -
  have transient: "\<forall>a < 3. is_transient (always_429 ''prompt'' a)"
    by (simp add: always_429_def is_transient_def)
  show ?thesis
    using query_gemini_empty_string [of always_429 "''prompt''"] transient
    by blast
qed

text \<open>
  C6 as stated fails: a response with status 200 and the body \<open>{}\<close> makes the client
  return the empty string on the first of its 3 attempts.
\<close>

theorem query_gemini_empty_before_exhaustion:
  "fst (query_gemini (always_json (JObj [])) ''prompt'') = JStr [] \<and>
   attempts (snd (query_gemini (always_json (JObj [])) ''prompt'')) = 1 \<and>
   1 < max_retries"
proof -
  have "attempt_body (always_json (JObj []) ''prompt'' 0) = Returned (JStr [])"
    by (simp add: always_json_def attempt_body_def extract_text_def bind_def)
  then have "query_gemini (always_json (JObj [])) ''prompt'' = (JStr [], [Post ''prompt''])"
    by (rule query_gemini_first_returned)
  then show ?thesis
    by (simp add: max_retries_def)
qed

lemma extract_text_shapes:
  "(map_of d ''candidates'' = None \<longrightarrow> extract_text (JObj d) = Inr (JStr []))
   \<and> (map_of d ''candidates'' = Some (JArr []) \<longrightarrow> extract_text (JObj d) = Inl IndexError)
   \<and> (map_of d ''candidates'' = Some (JArr (JObj c # cs)) \<longrightarrow>
        (map_of c ''content'' = None \<longrightarrow> extract_text (JObj d) = Inr (JStr []))
      \<and> (map_of c ''content'' = Some (JObj k) \<longrightarrow>
           (map_of k ''parts'' = None \<longrightarrow> extract_text (JObj d) = Inr (JStr []))
         \<and> (map_of k ''parts'' = Some (JArr []) \<longrightarrow> extract_text (JObj d) = Inl IndexError)
         \<and> (map_of k ''parts'' = Some (JArr (JObj p # ps)) \<longrightarrow>
              extract_text (JObj d) = Inr (case map_of p ''text'' of None \<Rightarrow> JStr [] | Some v \<Rightarrow> v))))"
  by (simp add: extract_text_def bind_def)

lemma max_retries_pred: "max_retries - Suc 0 = 2"
  by (simp add: max_retries_def)

lemma query_gemini_first_raised:
  "attempt_body (session prompt 0) = Raised e \<Longrightarrow>
   query_gemini session prompt =
     emit [Post prompt, Sleep 1] (query_gemini_loop session prompt [1, 2])"
  by (simp add: query_gemini_def upt_max_retries base_delay_def max_retries_pred)

text \<open>
  C7, as the code has it. For an attempt whose response is not rate limited and whose
  body is an object: a missing \<open>candidates\<close>, \<open>content\<close> or \<open>parts\<close> key makes
  the client return the empty string at once; with all three present it returns the
  \<open>text\<close> field of the first part of the first candidate (the empty string when the
  field is missing); an empty list of candidates or of parts raises inside the
  \<open>try\<close>, and the client backs off and goes on with the remaining attempts, so that
  it returns the empty string when none of them returns.
\<close>

theorem query_gemini_response_shape:
  assumes "session prompt attempt = Http_Response status (Some (JObj d))"
    and "status \<noteq> 429"
  shows "(map_of d ''candidates'' = None \<longrightarrow>
            query_gemini_loop session prompt (attempt # rest) = (JStr [], [Post prompt]))
       \<and> (map_of d ''candidates'' = Some (JArr (JObj c # cs)) \<and> map_of c ''content'' = None \<longrightarrow>
            query_gemini_loop session prompt (attempt # rest) = (JStr [], [Post prompt]))
       \<and> (map_of d ''candidates'' = Some (JArr (JObj c # cs)) \<and>
          map_of c ''content'' = Some (JObj k) \<and> map_of k ''parts'' = None \<longrightarrow>
            query_gemini_loop session prompt (attempt # rest) = (JStr [], [Post prompt]))
       \<and> (map_of d ''candidates'' = Some (JArr (JObj c # cs)) \<and>
          map_of c ''content'' = Some (JObj k) \<and>
          map_of k ''parts'' = Some (JArr (JObj p # ps)) \<longrightarrow>
            query_gemini_loop session prompt (attempt # rest) =
              (case map_of p ''text'' of None \<Rightarrow> JStr [] | Some v \<Rightarrow> v, [Post prompt]))
       \<and> (map_of d ''candidates'' = Some (JArr []) \<or>
          (map_of d ''candidates'' = Some (JArr (JObj c # cs)) \<and>
           map_of c ''content'' = Some (JObj k) \<and> map_of k ''parts'' = Some (JArr [])) \<longrightarrow>
            query_gemini_loop session prompt (attempt # rest) =
              emit (if attempt < max_retries - 1
                    then [Post prompt, Sleep (base_delay * 2 ^ attempt)]
                    else [Post prompt])
                (query_gemini_loop session prompt rest) \<and>
            ((\<forall>a \<in> set rest. \<forall>v. attempt_body (session prompt a) \<noteq> Returned v) \<longrightarrow>
               fst (query_gemini_loop session prompt (attempt # rest)) = JStr []))"
proof -
  have body: "attempt_body (session prompt attempt) =
      (case extract_text (JObj d) of Inl e \<Rightarrow> Raised e | Inr v \<Rightarrow> Returned v)"
    using assms by (simp add: attempt_body_def)
  have returned: "query_gemini_loop session prompt (attempt # rest) = (v, [Post prompt])"
    if "extract_text (JObj d) = Inr v" for v
    using that body by simp
  have raised: "query_gemini_loop session prompt (attempt # rest) =
      emit (if attempt < max_retries - 1
            then [Post prompt, Sleep (base_delay * 2 ^ attempt)]
            else [Post prompt])
        (query_gemini_loop session prompt rest)"
    if "extract_text (JObj d) = Inl e" for e
    using that body by simp
  note shapes = extract_text_shapes [of d c cs k p ps]
  show ?thesis
  proof (intro conjI impI)
    assume "map_of d ''candidates'' = None"
    then show "query_gemini_loop session prompt (attempt # rest) = (JStr [], [Post prompt])"
      using shapes by (intro returned) simp
  next
    assume "map_of d ''candidates'' = Some (JArr (JObj c # cs)) \<and> map_of c ''content'' = None"
    then show "query_gemini_loop session prompt (attempt # rest) = (JStr [], [Post prompt])"
      using shapes by (intro returned) simp
  next
    assume "map_of d ''candidates'' = Some (JArr (JObj c # cs)) \<and>
          map_of c ''content'' = Some (JObj k) \<and> map_of k ''parts'' = None"
    then show "query_gemini_loop session prompt (attempt # rest) = (JStr [], [Post prompt])"
      using shapes by (intro returned) simp
  next
    assume "map_of d ''candidates'' = Some (JArr (JObj c # cs)) \<and>
          map_of c ''content'' = Some (JObj k) \<and>
          map_of k ''parts'' = Some (JArr (JObj p # ps))"
    then show "query_gemini_loop session prompt (attempt # rest) =
              (case map_of p ''text'' of None \<Rightarrow> JStr [] | Some v \<Rightarrow> v, [Post prompt])"
      using shapes by (intro returned) simp
  next
    assume "map_of d ''candidates'' = Some (JArr []) \<or>
          (map_of d ''candidates'' = Some (JArr (JObj c # cs)) \<and>
           map_of c ''content'' = Some (JObj k) \<and> map_of k ''parts'' = Some (JArr []))"
    then have "extract_text (JObj d) = Inl IndexError"
      using shapes by auto
    then show "query_gemini_loop session prompt (attempt # rest) =
              emit (if attempt < max_retries - 1
                    then [Post prompt, Sleep (base_delay * 2 ^ attempt)]
                    else [Post prompt])
                (query_gemini_loop session prompt rest)"
      by (rule raised)
  next
    assume empty: "map_of d ''candidates'' = Some (JArr []) \<or>
          (map_of d ''candidates'' = Some (JArr (JObj c # cs)) \<and>
           map_of c ''content'' = Some (JObj k) \<and> map_of k ''parts'' = Some (JArr []))"
      and rest: "\<forall>a \<in> set rest. \<forall>v. attempt_body (session prompt a) \<noteq> Returned v"
    from empty have "extract_text (JObj d) = Inl IndexError"
      using shapes by auto
    then have "query_gemini_loop session prompt (attempt # rest) =
              emit (if attempt < max_retries - 1
                    then [Post prompt, Sleep (base_delay * 2 ^ attempt)]
                    else [Post prompt])
                (query_gemini_loop session prompt rest)"
      by (rule raised)
    moreover have "fst (query_gemini_loop session prompt rest) = JStr []"
      using query_gemini_loop_exhausted [of rest session prompt, OF rest] by simp
    ultimately show "fst (query_gemini_loop session prompt (attempt # rest)) = JStr []"
      by (simp add: emit_def)
  qed
qed

text \<open>
  C7, at a response whose first candidate has no content.
\<close>

theorem query_gemini_response_shape_witness:
  "query_gemini (always_json (JObj [(''candidates'', JArr [JObj []])])) ''prompt'' =
     (JStr [], [Post ''prompt''])"
proof -
  have first: "always_json (JObj [(''candidates'', JArr [JObj []])]) ''prompt'' 0 =
      Http_Response 200 (Some (JObj [(''candidates'', JArr [JObj []])]))"
    by (simp add: always_json_def)
  have status: "(200::nat) \<noteq> 429"
    by simp
  have shape: "map_of [(''candidates'', JArr [JObj []])] ''candidates'' = Some (JArr (JObj [] # [])) \<and>
      map_of [] ''content'' = (None :: json option)"
    by simp
  note run = query_gemini_response_shape
      [where session = "always_json (JObj [(''candidates'', JArr [JObj []])])"
         and prompt = "''prompt''" and attempt = 0 and status = 200
         and d = "[(''candidates'', JArr [JObj []])]" and c = "[]" and cs = "[]"
         and rest = "[1, 2]",
       OF first status]
  from run [THEN conjunct2, THEN conjunct1, THEN mp, OF shape]
  have "query_gemini_loop (always_json (JObj [(''candidates'', JArr [JObj []])])) ''prompt'' (0 # [1, 2]) =
      (JStr [], [Post ''prompt''])" .
  then show ?thesis
    by (simp only: query_gemini_def upt_max_retries)
qed

text \<open>
  C7 as stated fails: after a response with an empty list of candidates the client
  retries, and it returns the text of the second response, not the empty string.
\<close>

theorem query_gemini_empty_candidates_retried:
  "empty_then_answer ''prompt'' 0 = Http_Response 200 (Some (JObj [(''candidates'', JArr [])])) \<and>
   query_gemini empty_then_answer ''prompt'' =
     (JStr ''hello'', [Post ''prompt'', Sleep 1, Post ''prompt'']) \<and>
   fst (query_gemini empty_then_answer ''prompt'') \<noteq> JStr []"
proof -
  have a0: "attempt_body (empty_then_answer ''prompt'' 0) = Raised IndexError"
    by (simp add: empty_then_answer_def attempt_body_def extract_text_def bind_def)
  have a1: "attempt_body (empty_then_answer ''prompt'' (Suc 0)) = Returned (JStr ''hello'')"
    by (simp add: empty_then_answer_def attempt_body_def extract_text_answer)
  have "query_gemini empty_then_answer ''prompt'' =
     (JStr ''hello'', [Post ''prompt'', Sleep 1, Post ''prompt''])"
    by (simp add: query_gemini_def upt_max_retries a0 a1 emit_def base_delay_def max_retries_pred)
  then show ?thesis
    by (simp add: empty_then_answer_def)
qed

section \<open>Descriptions and extracted topics\<close>

lemma strip_eq_Nil: "strip s = [] \<longleftrightarrow> (\<forall>c \<in> set s. py_isspace c)"
proof
  assume "strip s = []"
  then have all: "\<forall>c \<in> set (dropWhile py_isspace s). py_isspace c"
    by (simp add: strip_def dropWhile_eq_Nil_conv)
  have "dropWhile py_isspace s = []"
  proof (rule ccontr)
    assume ne: "dropWhile py_isspace s \<noteq> []"
    then have "\<not> py_isspace (hd (dropWhile py_isspace s))"
      by (rule hd_dropWhile)
    moreover have "hd (dropWhile py_isspace s) \<in> set (dropWhile py_isspace s)"
      using ne by simp
    ultimately show False
      using all by blast
  qed
  then show "\<forall>c \<in> set s. py_isspace c"
    by (simp add: dropWhile_eq_Nil_conv)
next
  assume "\<forall>c \<in> set s. py_isspace c"
  then show "strip s = []"
    by (auto simp: strip_def dest: set_dropWhileD)
qed

lemma fallback_description_stripped: "strip (fallback_description t) \<noteq> []"
proof -
  have "CHR ''D'' \<in> set (fallback_description t)"
    by (simp add: fallback_description_def)
  moreover have "\<not> py_isspace CHR ''D''"
    by (simp add: py_isspace_def)
  ultimately show ?thesis
    unfolding strip_eq_Nil by blast
qed

lemma get_topic_description_str:
  assumes "fst (query_gemini session (description_prompt t)) = JStr d"
  shows "fst (get_topic_description session t) =
         Inr (strip (if d = [] then fallback_description t else d))"
  using assms
  by (cases "query_gemini session (description_prompt t)") (simp add: get_topic_description_def)

lemma get_topic_description_fallback:
  assumes "fst (query_gemini session (description_prompt t)) = JStr []"
  shows "fst (get_topic_description session t) = Inr (strip (fallback_description t))"
  using get_topic_description_str [OF assms] by simp

lemma get_topic_description_empty_iff:
  assumes "fst (query_gemini session (description_prompt t)) = JStr d"
  shows "fst (get_topic_description session t) = Inr [] \<longleftrightarrow> d \<noteq> [] \<and> (\<forall>c \<in> set d. py_isspace c)"
  using fallback_description_stripped [of t]
  by (auto simp: get_topic_description_str [OF assms] strip_eq_Nil)

lemma query_gemini_always_answer: "query_gemini (always_answer s) prompt = (JStr s, [Post prompt])"
  by (rule query_gemini_first_returned)
     (simp add: always_answer_def attempt_body_def extract_text_answer)

text \<open>
  C3. The description is meant never to be empty. The test for emptiness comes before
  the \<open>strip\<close>, so a generated text of three spaces passes the test and is stripped
  to the empty description; the extraction loop of \<open>process_all\<close> strips first and
  tests afterwards.
\<close>

theorem get_topic_description_whitespace:
  "fst (get_topic_description (always_answer ''   '') ''Recursion'') = Inr []"
proof -
  have "strip ''   '' = []"
    by (simp add: strip_eq_Nil py_isspace_def)
  then show ?thesis
    by (simp add: get_topic_description_def query_gemini_always_answer)
qed

lemma extract_lines_filter:
  "extract_lines lines =
   filter (\<lambda>t. t \<noteq> [])
     (map (\<lambda>line. strip (replace ''Topic:'' [] line))
        (filter (\<lambda>line. startswith line ''Topic:'') lines))"
  by (induction lines) (simp_all add: Let_def)

lemma extract_topics_example:
  "extract_topics (''Topic: A'' @ [newline] @ ''Note: B'' @ [newline] @ ''Topic:  C '') = [''A'', ''C'']"
  by code_simp

text \<open>
  C5. The extractor is meant to keep the remainder of the line after the leading marker.
  \<open>replace\<close> removes every occurrence of the marker, so a second \<open>Topic:\<close> inside
  the line is lost: the topic is \<open>A  B\<close>, not \<open>A Topic: B\<close>.
\<close>

theorem extract_topics_inner_marker:
  "extract_topics ''Topic: A Topic: B'' = [''A  B'']"
  by code_simp

section \<open>Video lookup and the order of effects\<close>

lemma get_videos_raises:
  "yt (''tutorial '' @ t) 5 = Inl e \<Longrightarrow> fst (get_videos yt t) = []"
  by (simp add: get_videos_def bind_def)

lemma get_topic_description_trace:
  "snd (get_topic_description session t) = snd (query_gemini session (description_prompt t))"
  by (cases "query_gemini session (description_prompt t)";
      cases "fst (query_gemini session (description_prompt t))")
     (simp_all add: get_topic_description_def)

lemma process_topic_trace:
  "snd (process_topic session yt t) =
   snd (get_topic_description session t) @
   (case fst (get_topic_description session t) of
      Inl e \<Rightarrow> []
    | Inr d \<Rightarrow> [Search (''tutorial '' @ t)])"
  by (cases "get_topic_description session t"; cases "fst (get_topic_description session t)")
     (simp_all add: process_topic_def get_videos_def)

lemma query_gemini_always_429:
  "query_gemini always_429 prompt =
     (JStr [], [Post prompt, Sleep 1, Post prompt, Sleep 2, Post prompt, Sleep 4])"
  by (simp add: query_gemini_def upt_max_retries always_429_def attempt_body_def emit_def
      base_delay_def)

text \<open>
  C9. The comment of \<open>process_topic\<close> announces a parallel video lookup, but the
  lookup is submitted after the description has been awaited: with a backend that is
  always rate limited, the search starts after three requests and seven seconds of
  back-off.
\<close>

theorem process_topic_sequential:
  "snd (process_topic always_429 youtube_down ''Recursion'') =
     [Post (description_prompt ''Recursion''), Sleep 1,
      Post (description_prompt ''Recursion''), Sleep 2,
      Post (description_prompt ''Recursion''), Sleep 4,
      Search ''tutorial Recursion'']"
proof -
  have "fst (get_topic_description always_429 ''Recursion'') =
        Inr (strip (fallback_description ''Recursion''))"
    by (rule get_topic_description_fallback) (simp add: query_gemini_always_429)
  then show ?thesis
    by (simp add: process_topic_trace get_topic_description_trace query_gemini_always_429)
qed

lemma make_video_missing:
  "map_of r ''url_suffix'' = None \<or> map_of r ''title'' = None \<or> map_of r ''duration'' = None \<Longrightarrow>
   make_video r = Inl KeyError"
  by (auto simp: make_video_def getitem_def bind_def split: option.splits)

lemma make_videos_missing:
  "r \<in> set rs \<Longrightarrow> make_video r = Inl KeyError \<Longrightarrow> \<exists>e. make_videos rs = Inl e"
proof (induction rs)
  case Nil
  then show ?case by simp
next
  case (Cons a rs)
  then show ?case
    by (cases "make_video a"; cases "make_videos rs") (auto simp: bind_def)
qed

text \<open>
  C10. When one record of the lookup lacks \<open>url_suffix\<close>, \<open>title\<close> or
  \<open>duration\<close>, the video list of the topic is empty, whatever the other records hold.
  Only \<open>views\<close> has a fallback: a record with the three required fields and no
  \<open>views\<close> gives a video with views \<open>N/A\<close>.
\<close>

theorem get_videos_missing_field:
  assumes "yt (''tutorial '' @ t) 5 = Inr results"
    and "r \<in> set results"
    and "map_of r ''url_suffix'' = None \<or> map_of r ''title'' = None \<or> map_of r ''duration'' = None"
  shows "fst (get_videos yt t) = [] \<and>
         (\<forall>r' u ti du.
            map_of r' ''url_suffix'' = Some u \<and> map_of r' ''title'' = Some ti \<and>
            map_of r' ''duration'' = Some du \<and> map_of r' ''views'' = None \<longrightarrow>
            make_video r' = Inr \<lparr>url = ''https://youtube.com'' @ u, title = ti, duration = du,
                                 views = ''N/A''\<rparr>)"
proof (intro conjI allI impI)
  obtain e where "make_videos results = Inl e"
    using make_videos_missing [OF assms(2) make_video_missing [OF assms(3)]] by blast
  then show "fst (get_videos yt t) = []"
    using assms(1) by (simp add: get_videos_def bind_def)
next
  fix r' :: raw_result and u ti du
  assume "map_of r' ''url_suffix'' = Some u \<and> map_of r' ''title'' = Some ti \<and>
          map_of r' ''duration'' = Some du \<and> map_of r' ''views'' = None"
  then show "make_video r' = Inr \<lparr>url = ''https://youtube.com'' @ u, title = ti, duration = du,
                                 views = ''N/A''\<rparr>"
    by (simp add: make_video_def getitem_def bind_def)
qed

text \<open>
  C10, at two records of which the second has no duration.
\<close>

theorem get_videos_missing_field_witness:
  "fst (get_videos sample_youtube ''Recursion'') = []"
proof -
  have results: "sample_youtube (''tutorial '' @ ''Recursion'') 5 = Inr sample_results"
    by (simp add: sample_youtube_def)
  have member: "[(''url_suffix'', ''/watch?v=2''), (''title'', ''Part 2'')] \<in> set sample_results"
    by (simp add: sample_results_def)
  have missing: "map_of [(''url_suffix'', ''/watch?v=2''), (''title'', ''Part 2'')] ''url_suffix'' = None \<or>
      map_of [(''url_suffix'', ''/watch?v=2''), (''title'', ''Part 2'')] ''title'' = None \<or>
      map_of [(''url_suffix'', ''/watch?v=2''), (''title'', ''Part 2'')] ''duration'' = None"
    by simp
  show ?thesis
    using get_videos_missing_field
      [where yt = sample_youtube and t = "''Recursion''", OF results member missing]
    by (elim conjE)
qed

section \<open>Order and count of the gathered results\<close>

lemma gather_loop_raises:
  assumes "i \<in> set order" and "i < length outcomes" and "outcomes ! i = Inl e"
  shows "\<exists>e'. gather_loop outcomes order slots = Inl e'"
  using assms(1)
proof (induction order arbitrary: slots)
  case Nil
  then show ?case by simp
next
  case (Cons j order)
  show ?case
  proof (cases "j < length outcomes")
    case True
    show ?thesis
    proof (cases "outcomes ! j")
      case (Inl e')
      with True show ?thesis by simp
    next
      case (Inr v)
      with assms(3) have "i \<noteq> j" by auto
      with Cons.prems have "i \<in> set order" by simp
      from Cons.IH [OF this] True Inr show ?thesis by simp
    qed
  next
    case False
    with assms(2) have "i \<noteq> j" by auto
    with Cons.prems have "i \<in> set order" by simp
    from Cons.IH [OF this] False show ?thesis by simp
  qed
qed

lemma all_returned:
  assumes "\<forall>i < length outcomes. \<exists>v. outcomes ! i = Inr v"
  shows "outcomes = map Inr (map projr outcomes)"
proof (rule nth_equalityI)
  show "length outcomes = length (map Inr (map projr outcomes))"
    by simp
next
  fix i
  assume i: "i < length outcomes"
  with assms obtain v where "outcomes ! i = Inr v"
    by blast
  with i show "outcomes ! i = map Inr (map projr outcomes) ! i"
    by simp
qed

lemma gather_returns:
  assumes "completion_order (length outcomes) order"
  shows "\<exists>res. gather outcomes order = Some res"
proof (cases "\<forall>i < length outcomes. \<exists>v. outcomes ! i = Inr v")
  case True
  then have "outcomes = map Inr (map projr outcomes)"
    by (rule all_returned)
  then obtain vs where vs: "outcomes = map Inr vs" ..
  with assms have "completion_order (length vs) order"
    by simp
  from gather_all_returned [OF this] vs show ?thesis
    by simp
next
  case False
  then obtain i where i: "i < length outcomes" "\<nexists>v. outcomes ! i = Inr v"
    by blast
  then obtain e where e: "outcomes ! i = Inl e"
    by (cases "outcomes ! i") auto
  have "i \<in> set order"
    using completion_order_set [OF assms] i(1) by simp
  from gather_loop_raises [OF this i(1) e]
  obtain e' where "gather_loop outcomes order (replicate (length outcomes) None) = Inl e'"
    by blast
  then show ?thesis
    by (simp add: gather_def)
qed

lemma gather_returned:
  assumes "completion_order (length outcomes) order"
    and "gather outcomes order = Some (Inr rs)"
  shows "outcomes = map Inr rs"
proof -
  have all: "\<exists>v. outcomes ! i = Inr v" if i: "i < length outcomes" for i
  proof (rule ccontr)
    assume "\<nexists>v. outcomes ! i = Inr v"
    then obtain e where e: "outcomes ! i = Inl e"
      by (cases "outcomes ! i") auto
    have "i \<in> set order"
      using completion_order_set [OF assms(1)] i by simp
    from gather_loop_raises [OF this i e]
    obtain e' where "gather_loop outcomes order (replicate (length outcomes) None) = Inl e'"
      by blast
    then show False
      using assms(2) by (simp add: gather_def)
  qed
  then have "\<forall>i < length outcomes. \<exists>v. outcomes ! i = Inr v"
    by blast
  then have "outcomes = map Inr (map projr outcomes)"
    by (rule all_returned)
  then obtain vs where vs: "outcomes = map Inr vs" ..
  with assms(1) have "completion_order (length vs) order"
    by simp
  from gather_all_returned [OF this] assms(2) vs show ?thesis
    by simp
qed

lemma length_tasks:
  "length (map (\<lambda>(i, t). fst (process_topic (net (Suc i)) yt t)) (enumerate 0 topics)) = length topics"
  by simp

lemma process_topics_returned:
  assumes order: "completion_order (length topics) order"
    and returned: "process_topics net yt order topics = Some (Inr rs)"
  shows "length rs = length topics"
    and "\<forall>i < length topics. fst (process_topic (net (Suc i)) yt (topics ! i)) = Inr (rs ! i)"
    and "map topic rs = topics"
proof -
  let ?tasks = "map (\<lambda>(i, t). fst (process_topic (net (Suc i)) yt t)) (enumerate 0 topics)"
  have "completion_order (length ?tasks) order"
    using order by simp
  moreover have "gather ?tasks order = Some (Inr rs)"
    using returned by (simp add: process_topics_def)
  ultimately have "?tasks = map Inr rs"
    by (rule gather_returned)
  then have tasks: "map (\<lambda>i. fst (process_topic (net (Suc i)) yt (topics ! i))) [0..<length topics] = map Inr rs"
    by (simp add: enumerate_tasks)
  from arg_cong [OF this, of length] show len: "length rs = length topics"
    by simp
  show pos: "\<forall>i < length topics. fst (process_topic (net (Suc i)) yt (topics ! i)) = Inr (rs ! i)"
  proof (intro allI impI)
    fix i
    assume i: "i < length topics"
    from arg_cong [OF tasks, of "\<lambda>xs. xs ! i"] i len
    show "fst (process_topic (net (Suc i)) yt (topics ! i)) = Inr (rs ! i)"
      by simp
  qed
  show "map topic rs = topics"
  proof (rule nth_equalityI)
    show "length (map topic rs) = length topics"
      using len by simp
  next
    fix i
    assume "i < length (map topic rs)"
    then have i: "i < length topics"
      using len by simp
    with pos have "fst (process_topic (net (Suc i)) yt (topics ! i)) = Inr (rs ! i)"
      by blast
    then have "topic (rs ! i) = topics ! i"
      by (rule process_topic_topic)
    then show "map topic rs ! i = topics ! i"
      using i len by simp
  qed
qed

lemma process_topics_returns:
  assumes "completion_order (length topics) order"
  shows "\<exists>res. process_topics net yt order topics = Some res"
  unfolding process_topics_def
  by (rule gather_returns) (simp add: assms)

text \<open>
  C1. For every list of topics and every completion order of the tasks, \<open>gather\<close>
  returns; a list of results has the topics in the order of the input, position \<open>i\<close>
  holding the record that the task of topic \<open>i\<close> returned; and with string-typed
  backends no task raises, so a list of results is what it returns.
\<close>

theorem process_topics_order:
  assumes order: "completion_order (length topics) order"
  shows "(\<exists>res. process_topics net yt order topics = Some res)
       \<and> (\<forall>rs. process_topics net yt order topics = Some (Inr rs) \<longrightarrow>
             map topic rs = topics \<and>
             (\<forall>i < length topics.
                fst (process_topic (net (Suc i)) yt (topics ! i)) = Inr (rs ! i)))
       \<and> ((\<forall>i < length topics. str_typed (net (Suc i))) \<longrightarrow>
             (\<exists>rs. process_topics net yt order topics = Some (Inr rs)))"
proof (intro conjI allI impI)
  show "\<exists>res. process_topics net yt order topics = Some res"
    using order by (rule process_topics_returns)
next
  fix rs
  assume "process_topics net yt order topics = Some (Inr rs)"
  from process_topics_returned(3) [OF order this]
  show "map topic rs = topics" .
next
  fix rs i
  assume "process_topics net yt order topics = Some (Inr rs)" and "i < length topics"
  with process_topics_returned(2) [OF order]
  show "fst (process_topic (net (Suc i)) yt (topics ! i)) = Inr (rs ! i)"
    by blast
next
  assume "\<forall>i < length topics. str_typed (net (Suc i))"
  from process_topics_result [OF this order]
  show "\<exists>rs. process_topics net yt order topics = Some (Inr rs)"
    by blast
qed

text \<open>
  C1, at three topics that finish in the order 2, 0, 1.
\<close>

theorem process_topics_order_witness:
  "\<exists>rs. process_topics (\<lambda>i. always_429) youtube_down [2, 0, 1] [''A'', ''B'', ''A''] = Some (Inr rs) \<and>
        map topic rs = [''A'', ''B'', ''A'']"
proof -
  have typed: "\<forall>i < length [''A'', ''B'', ''A'']. str_typed ((\<lambda>i. always_429) (Suc i))"
    by (simp add: str_typed_always_429)
  have order: "completion_order (length [''A'', ''B'', ''A'']) [2, 0, 1]"
    by code_simp
  show ?thesis
    using process_topics_order [OF order, of "\<lambda>i. always_429" youtube_down] typed
    by blast
qed

text \<open>
  C2. \<open>process_all\<close> returns; a list of results has exactly one record per extracted
  topic; and with string-typed backends a list of results is what it returns, also
  when every description call and every video lookup fails.
\<close>

theorem process_all_count:
  assumes extracted: "fst (query_gemini (net 0) (extraction_prompt doc)) = JStr topics_text"
    and order: "completion_order (length (extract_topics topics_text)) order"
  shows "(\<exists>res. process_all net yt order doc = Some res)
       \<and> (\<forall>rs. process_all net yt order doc = Some (Inr rs) \<longrightarrow>
             length rs = length (extract_topics topics_text))
       \<and> ((\<forall>i. str_typed (net (Suc i))) \<longrightarrow>
             (\<exists>rs. process_all net yt order doc = Some (Inr rs) \<and>
                   length rs = length (extract_topics topics_text)))"
proof -
  have run: "process_all net yt order doc =
             process_topics net yt order (extract_topics topics_text)"
    using extracted by (simp add: process_all_def)
  show ?thesis
    unfolding run
  proof (intro conjI allI impI)
    show "\<exists>res. process_topics net yt order (extract_topics topics_text) = Some res"
      using order by (rule process_topics_returns)
  next
    fix rs
    assume "process_topics net yt order (extract_topics topics_text) = Some (Inr rs)"
    from process_topics_returned(1) [OF order this]
    show "length rs = length (extract_topics topics_text)" .
  next
    assume "\<forall>i. str_typed (net (Suc i))"
    then have "\<forall>i < length (extract_topics topics_text). str_typed (net (Suc i))"
      by simp
    from process_topics_result [OF this order]
    show "\<exists>rs. process_topics net yt order (extract_topics topics_text) = Some (Inr rs) \<and>
               length rs = length (extract_topics topics_text)"
      by blast
  qed
qed

text \<open>
  C2, at two extracted topics whose description calls are all rate limited, with the
  video lookup raising.
\<close>

theorem process_all_count_witness:
  "\<exists>rs. process_all failing_net youtube_down [1, 0] ''syllabus'' = Some (Inr rs) \<and> length rs = 2"
proof -
  have typed: "\<forall>i. str_typed (failing_net (Suc i))"
    by (simp add: failing_net_def str_typed_always_429)
  have "attempt_body (failing_net 0 (extraction_prompt ''syllabus'') 0) = Returned (JStr two_topics)"
    by (simp add: failing_net_def always_answer_def attempt_body_def extract_text_answer)
  then have extracted: "fst (query_gemini (failing_net 0) (extraction_prompt ''syllabus'')) = JStr two_topics"
    by (simp add: query_gemini_first_returned)
  have order: "completion_order (length (extract_topics two_topics)) [1, 0]"
    unfolding extract_topics_two by code_simp
  have two: "length (extract_topics two_topics) = 2"
    unfolding extract_topics_two by simp
  from process_all_count
    [where net = failing_net and doc = "''syllabus''" and topics_text = two_topics
       and order = "[1, 0]" and yt = youtube_down,
     OF extracted order] typed
  have "\<exists>rs. process_all failing_net youtube_down [1, 0] ''syllabus'' = Some (Inr rs) \<and>
             length rs = length (extract_topics two_topics)"
    by (elim conjE impE)
  then show ?thesis
    unfolding two .
qed

text \<open>
  C8. When the video lookup raises, the video list is empty and the result of
  \<open>process_topic\<close> is decided by the description path alone: the exception of the
  lookup is not propagated, and with a string-typed backend the record carries the
  description and no video.
\<close>

theorem process_topic_video_isolation:
  assumes "yt (''tutorial '' @ t) 5 = Inl e"
  shows "fst (get_videos yt t) = []
       \<and> fst (process_topic session yt t) =
           (case fst (get_topic_description session t) of
              Inl e' \<Rightarrow> Inl e'
            | Inr d \<Rightarrow> Inr \<lparr>topic = t, description = d, videos = []\<rparr>)
       \<and> (str_typed session \<longrightarrow>
            (\<exists>d. fst (get_topic_description session t) = Inr d \<and>
                 fst (process_topic session yt t) =
                   Inr \<lparr>topic = t, description = d, videos = []\<rparr>))"
proof -
  have videos: "fst (get_videos yt t) = []"
    using assms by (simp add: get_videos_def bind_def)
  have result: "fst (process_topic session yt t) =
           (case fst (get_topic_description session t) of
              Inl e' \<Rightarrow> Inl e'
            | Inr d \<Rightarrow> Inr \<lparr>topic = t, description = d, videos = []\<rparr>)"
  proof (cases "fst (get_topic_description session t)")
    case (Inl e')
    then show ?thesis by (simp add: process_topic_raises)
  next
    case (Inr d)
    then show ?thesis by (simp add: process_topic_description videos)
  qed
  have "\<exists>d. fst (get_topic_description session t) = Inr d \<and>
             fst (process_topic session yt t) = Inr \<lparr>topic = t, description = d, videos = []\<rparr>"
    if typed: "str_typed session"
  proof -
    obtain d where d: "fst (get_topic_description session t) = Inr d"
      using get_topic_description_typed [OF typed] by blast
    with result show ?thesis by simp
  qed
  with videos result show ?thesis
    by blast
qed

text \<open>
  C8, at a backend that answers \<open>desc-R\<close> and a lookup that raises.
\<close>

theorem process_topic_video_isolation_witness:
  "\<exists>d. fst (process_topic (always_answer ''desc-R'') youtube_down ''Recursion'') =
          Inr \<lparr>topic = ''Recursion'', description = d, videos = []\<rparr>"
proof -
  have raises: "youtube_down (''tutorial '' @ ''Recursion'') 5 = Inl (Other_Exception ''lookup'')"
    by (simp add: youtube_down_def)
  from process_topic_video_isolation
    [where yt = youtube_down and t = "''Recursion''" and session = "always_answer ''desc-R''",
     OF raises] str_typed_always_answer [of "''desc-R''"]
  obtain d where "fst (process_topic (always_answer ''desc-R'') youtube_down ''Recursion'') =
          Inr \<lparr>topic = ''Recursion'', description = d, videos = []\<rparr>"
    by (elim conjE impE exE)
  then show ?thesis
    by (intro exI)
qed

end
